theory Spec2Isabelle
  imports Main "HOL-Library.AList"
begin

section \<open>The SDLC workflow application (app.py)\<close>

text \<open>
  The program is a Streamlit script: every user action re-runs the script from the top
  against a session state that survives between runs. The embedding passes that session
  state explicitly. The two external collaborators (the Groq completion service and the
  JSON serialiser) and the clock are parameters of the functions that use them.
\<close>

subsection \<open>Stage registry\<close>

text \<open>One entry of \<^verbatim>\<open>WORKFLOW_STEPS\<close>: a dict with the keys id, label, icon and color.\<close>

record step =
  id' :: string
  label :: string
  icon :: string
  color :: string

text \<open>
  The label of the first entry starts with the robot emoji U+1F916, written here as its
  four UTF-8 bytes.
\<close>

definition WORKFLOW_STEPS :: "step list" where
  "WORKFLOW_STEPS =
    [\<lparr>id' = ''api_input'',
      label = [CHR 0xF0, CHR 0x9F, CHR 0xA4, CHR 0x96] @ '' AI Powered Automation'',
      icon = ''fa-key'', color = ''#2196F3''\<rparr>,
     \<lparr>id' = ''user_stories'', label = ''User Stories'',
      icon = ''fa-clipboard-list'', color = ''#4CAF50''\<rparr>,
     \<lparr>id' = ''design_docs'', label = ''Design Docs'',
      icon = ''fa-drafting-compass'', color = ''#FF9800''\<rparr>,
     \<lparr>id' = ''code_generation'', label = ''Code Generation'',
      icon = ''fa-code'', color = ''#9C27B0''\<rparr>,
     \<lparr>id' = ''code_review'', label = ''Code Review'',
      icon = ''fa-search-plus'', color = ''#00BCD4''\<rparr>,
     \<lparr>id' = ''security_review'', label = ''Security Review'',
      icon = ''fa-shield-alt'', color = ''#F44336''\<rparr>,
     \<lparr>id' = ''test_cases'', label = ''Test Cases'',
      icon = ''fa-vial'', color = ''#8BC34A''\<rparr>,
     \<lparr>id' = ''qa_testing'', label = ''QA Testing'',
      icon = ''fa-check-double'', color = ''#3F51B5''\<rparr>,
     \<lparr>id' = ''deployment'', label = ''Deployment'',
      icon = ''fa-rocket'', color = ''#E91E63''\<rparr>,
     \<lparr>id' = ''monitoring'', label = ''Monitoring'',
      icon = ''fa-chart-line'', color = ''#009688''\<rparr>]"

subsection \<open>Session state\<close>

text \<open>
  \<^verbatim>\<open>st.session_state\<close>. The first five fields are initialised at the top of the
  script (lines 8 to 18); \<^verbatim>\<open>api_key\<close> and \<^verbatim>\<open>project_prompt\<close> exist only once the intake
  form has been rendered, so they are optional. The three dicts are maps: nothing in the
  program depends on their key order.
\<close>

record session_state =
  current_step :: string
  approved :: "string \<rightharpoonup> bool"
  feedback :: "string \<rightharpoonup> string"
  generated_content :: "string \<rightharpoonup> string"
  show_completion_prompt :: bool
  api_key :: "string option"
  project_prompt :: "string option"

text \<open>The state that lines 8 to 18 create on the first run of a session.\<close>

definition initial_session_state :: session_state where
  "initial_session_state =
    \<lparr>current_step = ''api_input'',
     approved = Map.empty,
     feedback = Map.empty,
     generated_content = Map.empty,
     show_completion_prompt = False,
     api_key = None,
     project_prompt = None\<rparr>"

text \<open>Exceptions that the modelled code can raise.\<close>

datatype exn =
    StopIteration
  | AttributeError string
  | KeyError string
  | ValueError
  | ServiceError string

text \<open>
  \<^verbatim>\<open>st.rerun()\<close> abandons the current script run and starts the next one; a handler
  reports whether it did so.
\<close>

datatype flow = Proceed | Rerun

text \<open>\<^verbatim>\<open>d.get(k, default)\<close> on a dict.\<close>

definition dict_get :: "('k \<rightharpoonup> 'v) \<Rightarrow> 'k \<Rightarrow> 'v \<Rightarrow> 'v" where
  "dict_get d k dflt = (case d k of None \<Rightarrow> dflt | Some v \<Rightarrow> v)"


subsection \<open>Prompt templates\<close>

text \<open>
  \<^verbatim>\<open>PROMPT_TEMPLATES\<close>, a dict literal with five keys. The template of
  \<^verbatim>\<open>design_docs\<close> is a triple-quoted string: its line breaks and the four spaces of
  indentation of the following source lines belong to it.
\<close>

definition LF :: char where
  "LF = CHR 0x0A"

definition PROMPT_TEMPLATES :: "(string \<times> string) list" where
  "PROMPT_TEMPLATES =
    [(''user_stories'',
      ''Generate comprehensive user stories for: {prompt}. Include acceptance criteria.''),
     (''design_docs'',
      ''Create functional and technical design documents for: {prompt}'' @ [LF] @
      ''    Functional:'' @ [LF] @
      ''    - User flows'' @ [LF] @
      ''    - Feature specs'' @ [LF] @
      ''    '' @ [LF] @
      ''    Technical:'' @ [LF] @
      ''    - Architecture'' @ [LF] @
      ''    - Tech stack'' @ [LF] @
      ''    - Data models''),
     (''code_generation'',
      ''Generate production-ready code for: {prompt}. Include error handling and docs.''),
     (''test_cases'',
      ''Create test cases for: {prompt}. Include positive/negative scenarios.''),
     (''deployment'',
      ''Create deployment plan for: {prompt}. Include rollback strategy.'')]"

text \<open>
  \<^verbatim>\<open>template.format(prompt=v)\<close>. Literal text is copied, a doubled brace gives one
  brace, and the replacement field \<^verbatim>\<open>{prompt}\<close> gives \<open>v\<close>. Any other use of a brace
  makes Python raise (a stray brace, a field that is not the keyword \<^verbatim>\<open>prompt\<close>); the
  model reports all of these as \<open>ValueError\<close>, and does not cover conversions and format
  specifications inside a field, which no template of the table uses.
\<close>

function str_format :: "string \<Rightarrow> string \<Rightarrow> exn + string" where
  "str_format v [] = Inr []"
| "str_format v (c # cs) =
    (if c = CHR ''{'' then
       (if take 1 cs = ''{'' then map_sum id ((#) CHR ''{'') (str_format v (drop 1 cs))
        else if take 7 cs = ''prompt}'' then map_sum id ((@) v) (str_format v (drop 7 cs))
        else Inl ValueError)
     else if c = CHR ''}'' then
       (if take 1 cs = ''}'' then map_sum id ((#) CHR ''}'') (str_format v (drop 1 cs))
        else Inl ValueError)
     else map_sum id ((#) c) (str_format v cs))"
  by pat_completeness auto
termination
  by (relation "measure (\<lambda>(v, t). length t)") auto

subsection \<open>Content generator\<close>

text \<open>What the presentation surface is told to show.\<close>

datatype ui_event =
    st_error string
  | st_error_exc exn  \<comment> \<open>\<^verbatim>\<open>st.error(f"Error: {str(e)}")\<close> for a caught exception\<close>
  | st_warning string
  | st_markdown string
  | st_spinner string
  | st_header string

text \<open>
  The request sent to the completion service; messages are pairs of role and content,
  and the temperature, the literal 0.3 of the source, is kept in tenths.
\<close>

record chat_request =
  model :: string
  messages :: "(string \<times> string) list"
  temperature_tenths :: nat
  max_tokens :: nat

text \<open>
  The completion service, given the API key and the request: \<open>Inr\<close> is the text of
  \<^verbatim>\<open>response.choices[0].message.content\<close>, \<open>Inl\<close> any exception raised between
  building the client and reading that text.
\<close>

type_synonym completion_service = "string \<Rightarrow> chat_request \<Rightarrow> exn + string"

text \<open>
  Everything in the body is inside \<^verbatim>\<open>try\<close>, so a missing \<^verbatim>\<open>api_key\<close> attribute is
  caught like a failure of the service: the error is shown and the empty string returned.
\<close>

definition generate_with_groq ::
  "completion_service \<Rightarrow> session_state \<Rightarrow> string \<Rightarrow> string \<Rightarrow> string \<times> ui_event list" where
  "generate_with_groq svc s prompt step =
    (case api_key s of
       None \<Rightarrow> ('''', [st_error_exc (AttributeError ''api_key'')])
     | Some k \<Rightarrow>
         (let system_prompt =
                ''Expert SDLC assistant. Provide detailed output for '' @ step @ ''.''
          in case svc k \<lparr>model = ''llama3-70b-8192'',
                          messages = [(''system'', system_prompt), (''user'', prompt)],
                          temperature_tenths = 3,
                          max_tokens = 4000\<rparr> of
               Inl e \<Rightarrow> ('''', [st_error_exc e])
             | Inr content \<Rightarrow> (content, [])))"

text \<open>
  A completion service that cannot be reached: every call raises, whatever the key and
  the request.
\<close>

definition unreachable_service :: completion_service where
  "unreachable_service k req = Inl (ServiceError ''connection refused'')"

subsection \<open>Advancing the workflow\<close>

text \<open>
  \<^verbatim>\<open>next(i for i, s in enumerate(xs) if P s)\<close>: the index of the first element that
  satisfies \<open>P\<close>; \<open>None\<close> stands for the \<^verbatim>\<open>StopIteration\<close> of an exhausted generator.
\<close>

fun first_index :: "('a \<Rightarrow> bool) \<Rightarrow> 'a list \<Rightarrow> nat option" where
  "first_index P [] = None"
| "first_index P (x # xs) = (if P x then Some 0 else map_option Suc (first_index P xs))"

definition move_to_next_step :: "session_state \<Rightarrow> exn + (flow \<times> session_state)" where
  "move_to_next_step s =
    (case first_index (\<lambda>st. id' st = current_step s) WORKFLOW_STEPS of
       None \<Rightarrow> Inl StopIteration
     | Some current_index \<Rightarrow>
         if int current_index < int (length WORKFLOW_STEPS) - 1
         then Inr (Rerun, s\<lparr>current_step := id' (WORKFLOW_STEPS ! (current_index + 1))\<rparr>)
         else Inr (Proceed, s))"

text \<open>
  The handler of the Approve button of \<^verbatim>\<open>render_sdlc_step(step_id)\<close> (lines 156 to 158).
\<close>

definition approve :: "string \<Rightarrow> session_state \<Rightarrow> exn + (flow \<times> session_state)" where
  "approve step_id s = move_to_next_step (s\<lparr>approved := (approved s)(step_id \<mapsto> True)\<rparr>)"

subsection \<open>Rendering a stage: generation\<close>

text \<open>
  The truth value Python gives to the result of \<^verbatim>\<open>feedback.get(step_id)\<close>: a missing key
  gives \<^verbatim>\<open>None\<close>, and \<^verbatim>\<open>None\<close> and the empty string are false.
\<close>

definition truthy :: "string option \<Rightarrow> bool" where
  "truthy v = (case v of None \<Rightarrow> False | Some t \<Rightarrow> t \<noteq> [])"

text \<open>The condition of line 143, which decides whether content is generated.\<close>

definition needs_generation :: "string \<Rightarrow> session_state \<Rightarrow> bool" where
  "needs_generation step_id s \<longleftrightarrow>
     generated_content s step_id = None \<or> truthy (feedback s step_id)"

text \<open>
  Lines 144 to 146: the template of the stage, or the empty string when the table has
  none, formatted with the project description, followed by the pending feedback.
\<close>

definition build_prompt :: "string \<Rightarrow> session_state \<Rightarrow> exn + string" where
  "build_prompt step_id s =
    (case project_prompt s of
       None \<Rightarrow> Inl (AttributeError ''project_prompt'')
     | Some p \<Rightarrow>
         (case str_format p (dict_get (map_of PROMPT_TEMPLATES) step_id '''') of
            Inl e \<Rightarrow> Inl e
          | Inr prompt \<Rightarrow>
              (case feedback s step_id of
                 None \<Rightarrow> Inr prompt
               | Some fb \<Rightarrow>
                   if fb \<noteq> [] then Inr (prompt @ [LF, LF] @ ''Feedback: '' @ fb)
                   else Inr prompt)))"

text \<open>The assignment of line 149, which stores what the generator returned.\<close>

definition record_generated :: "string \<Rightarrow> string \<Rightarrow> session_state \<Rightarrow> session_state" where
  "record_generated step_id content s =
     s\<lparr>generated_content := (generated_content s)(step_id \<mapsto> content)\<rparr>"

text \<open>\<^verbatim>\<open>step_id.replace('_', ' ')\<close>.\<close>

definition replace_underscores :: "string \<Rightarrow> string" where
  "replace_underscores t = map (\<lambda>c. if c = CHR ''_'' then CHR '' '' else c) t"

text \<open>Lines 143 to 149 of \<^verbatim>\<open>render_sdlc_step\<close>.\<close>

definition generate_content ::
  "completion_service \<Rightarrow> string \<Rightarrow> session_state \<Rightarrow> exn + (session_state \<times> ui_event list)" where
  "generate_content svc step_id s =
    (if needs_generation step_id s then
       (case build_prompt step_id s of
          Inl e \<Rightarrow> Inl e
        | Inr prompt \<Rightarrow>
            (case generate_with_groq svc s prompt step_id of
               (content, shown) \<Rightarrow>
                 Inr (record_generated step_id content s,
                      st_spinner (''Generating '' @ replace_underscores step_id @ ''...'') # shown)))
     else Inr (s, []))"

subsection \<open>Rendering a stage: controls\<close>

text \<open>
  The handler of the Submit button (lines 162 to 168), given the text of the feedback
  area.
\<close>

definition submit_feedback ::
  "string \<Rightarrow> string \<Rightarrow> session_state \<Rightarrow> flow \<times> session_state \<times> ui_event list" where
  "submit_feedback step_id fb s =
    (if fb \<noteq> [] then
       (Rerun,
        s\<lparr>feedback := (feedback s)(step_id \<mapsto> fb),
          approved := (approved s)(step_id \<mapsto> False)\<rparr>,
        [])
     else (Proceed, s, [st_warning ''Please enter feedback'']))"

text \<open>What the user did with the widgets of the stage since the last run.\<close>

record controls =
  approve_clicked :: bool
  feedback_text :: string
  submit_clicked :: bool

text \<open>
  \<^verbatim>\<open>render_sdlc_step\<close> as a whole. The download button of the third column shows
  stored content only and is left out.
\<close>

definition render_sdlc_step ::
  "completion_service \<Rightarrow> controls \<Rightarrow> string \<Rightarrow> session_state \<Rightarrow>
   exn + (flow \<times> session_state \<times> ui_event list)" where
  "render_sdlc_step svc inp step_id s =
    (case generate_content svc step_id s of
       Inl e \<Rightarrow> Inl e
     | Inr (s1, shown1) \<Rightarrow>
         (case generated_content s1 step_id of
            None \<Rightarrow> Inl (KeyError step_id)
          | Some content \<Rightarrow>
              (let shown2 = shown1 @ [st_markdown content] in
               case (if approve_clicked inp then approve step_id s1 else Inr (Proceed, s1)) of
                 Inl e \<Rightarrow> Inl e
               | Inr (Rerun, s2) \<Rightarrow> Inr (Rerun, s2, shown2)
               | Inr (Proceed, s2) \<Rightarrow>
                   if submit_clicked inp then
                     (case submit_feedback step_id (feedback_text inp) s2 of
                        (fl, s3, shown3) \<Rightarrow> Inr (fl, s3, shown2 @ shown3))
                   else Inr (Proceed, s2, shown2))))"

subsection \<open>Intake and restart\<close>

text \<open>
  \<^verbatim>\<open>render_api_input\<close>, given the contents of the two input fields and whether the
  start button was clicked.
\<close>

definition render_api_input ::
  "string \<Rightarrow> string \<Rightarrow> bool \<Rightarrow> session_state \<Rightarrow> flow \<times> session_state \<times> ui_event list" where
  "render_api_input key_input description_input start_clicked s =
    (let s1 = s\<lparr>api_key := Some key_input, project_prompt := Some description_input\<rparr> in
     if start_clicked then
       (if key_input = [] then (Proceed, s1, [st_warning ''Please enter API key''])
        else if description_input = [] then
          (Proceed, s1, [st_warning ''Please enter project description''])
        else (Rerun, s1\<lparr>current_step := ''user_stories''\<rparr>, []))
     else (Proceed, s1, []))"

text \<open>
  The handler of the button that starts a new workflow (lines 265 to 271), together with
  the initialisation at the top of the script that the rerun executes: the session is
  cleared, the API key and the flag are put back, and lines 8 to 15 create the missing
  entries again.
\<close>

definition start_new_sdlc :: "session_state \<Rightarrow> session_state" where
  "start_new_sdlc s =
    \<lparr>current_step = ''api_input'',
     approved = Map.empty,
     feedback = Map.empty,
     generated_content = Map.empty,
     show_completion_prompt = False,
     api_key = Some (case api_key s of None \<Rightarrow> '''' | Some k \<Rightarrow> k),
     project_prompt = None\<rparr>"

subsection \<open>Dispatch to the current stage\<close>

text \<open>
  What the widgets report to one run of the script. A button is identified by its key, or
  by its label when it has none, and returns true only in the run that follows a click on
  it, so at most one button is clicked in a run; a text field returns its current value.
  A user action on a widget that the run does not render reaches no handler.
\<close>

record widget_state =
  clicked :: "string option"
  texts :: "string \<rightharpoonup> string"

text \<open>
  The widgets of \<^verbatim>\<open>render_sdlc_step(step_id)\<close>: their keys are \<^verbatim>\<open>approve_\<close>,
  \<^verbatim>\<open>feedback_\<close> and \<^verbatim>\<open>submit_\<close> followed by the id of the stage.
\<close>

definition stage_controls :: "widget_state \<Rightarrow> string \<Rightarrow> controls" where
  "stage_controls w step_id =
    \<lparr>approve_clicked = (clicked w = Some (''approve_'' @ step_id)),
     feedback_text = dict_get (texts w) (''feedback_'' @ step_id) '''',
     submit_clicked = (clicked w = Some (''submit_'' @ step_id))\<rparr>"

text \<open>
  \<^verbatim>\<open>render_step\<close>, which the script calls with the current stage (line 283): it looks the
  stage up in the registry, shows its label and renders the intake form or the stage.
\<close>

definition render_step ::
  "completion_service \<Rightarrow> widget_state \<Rightarrow> string \<Rightarrow> session_state \<Rightarrow>
   exn + (flow \<times> session_state \<times> ui_event list)" where
  "render_step svc w step_id s =
    (case find (\<lambda>st. id' st = step_id) WORKFLOW_STEPS of
       None \<Rightarrow> Inr (Proceed, s, [st_error ''Invalid step''])
     | Some step_info \<Rightarrow>
         (case (if step_id = ''api_input'' then
                  Inr (render_api_input
                         (dict_get (texts w) ''Groq API Key:'' '''')
                         (dict_get (texts w) ''Project Description:'' '''')
                         (clicked w = Some ''Start SDLC Workflow'') s)
                else render_sdlc_step svc (stage_controls w step_id) step_id s) of
            Inl e \<Rightarrow> Inl e
          | Inr (fl, s', shown) \<Rightarrow> Inr (fl, s', st_header (label step_info) # shown)))"

subsection \<open>Completion and export\<close>

definition check_workflow_completion :: "session_state \<Rightarrow> bool" where
  "check_workflow_completion s =
    (let approved_steps =
           filter (\<lambda>st. id' st \<noteq> ''api_input'' \<and> dict_get (approved s) (id' st) False)
             WORKFLOW_STEPS
     in int (length approved_steps) = int (length WORKFLOW_STEPS) - 1)"

text \<open>The values that the export is built of; an object keeps the order of its keys.\<close>

datatype json =
    JString string
  | JBool bool
  | JObject "(string \<times> json) list"

text \<open>
  The dict literal of lines 98 to 102, for a stage whose generated content is \<open>c\<close>.
\<close>

definition step_entry :: "session_state \<Rightarrow> string \<Rightarrow> string \<Rightarrow> json" where
  "step_entry s step_id c =
    JObject [(''content'', JString c),
             (''feedback'', JString (dict_get (feedback s) step_id '''')),
             (''approved'', JBool (dict_get (approved s) step_id False))]"

text \<open>One pass of the loop of lines 95 to 102 over the dict of exported steps.\<close>

definition add_step :: "session_state \<Rightarrow> step \<Rightarrow> (string \<times> json) list \<Rightarrow> (string \<times> json) list" where
  "add_step s st steps =
    (let step_id = id' st in
     case generated_content s step_id of
       None \<Rightarrow> steps
     | Some c \<Rightarrow> AList.update step_id (step_entry s step_id c) steps)"

text \<open>\<^verbatim>\<open>workflow_data\<close> as it stands after the loop; \<open>now\<close> is the timestamp.\<close>

definition workflow_data :: "string \<Rightarrow> session_state \<Rightarrow> json" where
  "workflow_data now s =
    JObject [(''project'', JString (case project_prompt s of None \<Rightarrow> '''' | Some p \<Rightarrow> p)),
             (''timestamp'', JString now),
             (''steps'', JObject (fold (add_step s) WORKFLOW_STEPS []))]"

text \<open>
  \<^verbatim>\<open>download_entire_workflow\<close>; \<open>dumps\<close> stands for \<^verbatim>\<open>json.dumps\<close> with an indentation
  of two.
\<close>

definition download_entire_workflow ::
  "(json \<Rightarrow> string) \<Rightarrow> string \<Rightarrow> session_state \<Rightarrow> string \<times> session_state" where
  "download_entire_workflow dumps now s =
    (dumps (workflow_data now s),
     if check_workflow_completion s then s\<lparr>show_completion_prompt := True\<rparr> else s)"

section \<open>Properties\<close>

subsection \<open>Registry lookups\<close>

lemma first_index_distinct:
  "distinct (map f xs) \<Longrightarrow> i < length xs \<Longrightarrow>
   first_index (\<lambda>x. f x = f (xs ! i)) xs = Some i"
proof (induction xs arbitrary: i)
  case Nil
  then show ?case by simp
next
  case (Cons x xs)
  show ?case
  proof (cases i)
    case 0
    then show ?thesis by simp
  next
    case (Suc j)
    with Cons.prems have j: "j < length xs" and d: "distinct (map f xs)"
      and nx: "f x \<notin> f ` set xs"
      by simp_all
    from j nx have "f x \<noteq> f (xs ! j)"
      by (metis nth_mem image_eqI)
    with Cons.IH [OF d j] Suc show ?thesis by simp
  qed
qed

lemma length_WORKFLOW_STEPS: "length WORKFLOW_STEPS = 10"
  by (simp add: WORKFLOW_STEPS_def)

lemma distinct_WORKFLOW_STEPS: "distinct (map id' WORKFLOW_STEPS)"
  by (simp add: WORKFLOW_STEPS_def)

lemma move_to_next_step_at:
  assumes "i < length WORKFLOW_STEPS" and "current_step s = id' (WORKFLOW_STEPS ! i)"
  shows "move_to_next_step s =
    (if i + 1 < length WORKFLOW_STEPS
     then Inr (Rerun, s\<lparr>current_step := id' (WORKFLOW_STEPS ! (i + 1))\<rparr>)
     else Inr (Proceed, s))"
proof -
  have "first_index (\<lambda>st. id' st = current_step s) WORKFLOW_STEPS = Some i"
    using first_index_distinct [OF distinct_WORKFLOW_STEPS assms(1)] assms(2) by simp
  then show ?thesis
    by (auto simp: move_to_next_step_def)
qed

subsection \<open>Approval advances the workflow\<close>

text \<open>
  Claim C2. For every session state whose current stage is a registry stage, approving that
  stage sets its approved flag to true and moves the current stage to the registry entry
  immediately after it; when the stage is the last entry the current stage stays where it
  is. The stage is given by its position \<open>i\<close> in the registry, where ids are distinct,
  so "the entry immediately following" is the entry at position \<open>i + 1\<close>.
\<close>

theorem approve_current_advances:
  assumes "i < length WORKFLOW_STEPS"
    and "step_id = id' (WORKFLOW_STEPS ! i)"
    and "current_step s = step_id"
  shows "approve step_id s =
    Inr (if i + 1 < length WORKFLOW_STEPS then Rerun else Proceed,
         s\<lparr>approved := (approved s)(step_id \<mapsto> True),
           current_step := (if i + 1 < length WORKFLOW_STEPS
                            then id' (WORKFLOW_STEPS ! (i + 1)) else step_id)\<rparr>)"
proof -
  let ?s = "s\<lparr>approved := (approved s)(step_id \<mapsto> True)\<rparr>"
  have cur: "current_step ?s = id' (WORKFLOW_STEPS ! i)"
    using assms by simp
  have same: "?s\<lparr>current_step := step_id\<rparr> = ?s"
    using assms(3) by simp
  show ?thesis
    unfolding approve_def move_to_next_step_at [OF assms(1) cur]
    using same by simp
qed

theorem approve_current_advances_witness:
  "approve ''user_stories'' (initial_session_state\<lparr>current_step := ''user_stories''\<rparr>) =
     Inr (Rerun, initial_session_state\<lparr>approved := [''user_stories'' \<mapsto> True],
                                        current_step := ''design_docs''\<rparr>)"
proof -
  have h1: "(1::nat) < length WORKFLOW_STEPS"
    by (simp add: length_WORKFLOW_STEPS)
  have h2: "''user_stories'' = id' (WORKFLOW_STEPS ! 1)"
    by (simp add: WORKFLOW_STEPS_def)
  have h3: "current_step (initial_session_state\<lparr>current_step := ''user_stories''\<rparr>) =
      ''user_stories''"
    by simp
  have h4: "id' (WORKFLOW_STEPS ! (1 + 1)) = ''design_docs''"
    by (simp add: WORKFLOW_STEPS_def)
  have h5: "approved (initial_session_state\<lparr>current_step := ''user_stories''\<rparr>) = Map.empty"
    by (simp add: initial_session_state_def)
  show ?thesis
    unfolding approve_current_advances [OF h1 h2 h3] h4 h5
    by (simp add: length_WORKFLOW_STEPS)
qed

subsection \<open>When content is generated\<close>

text \<open>
  Claim C4. For every session state and stage id, \<open>needs_generation\<close> holds exactly when
  the stage has no entry in the generated content or its feedback is non-empty; and it is
  this predicate that decides whether the render path calls the generator: when it is
  false the generation phase changes nothing and shows nothing, and when it is true the
  phase builds the prompt and stores what the generator returns.
\<close>

theorem needs_generation_iff:
  "(needs_generation step_id s \<longleftrightarrow>
      step_id \<notin> dom (generated_content s) \<or> (\<exists>t. feedback s step_id = Some t \<and> t \<noteq> []))
   \<and> (\<not> needs_generation step_id s \<longrightarrow> generate_content svc step_id s = Inr (s, []))
   \<and> (needs_generation step_id s \<longrightarrow>
        (case build_prompt step_id s of
           Inl e \<Rightarrow> generate_content svc step_id s = Inl e
         | Inr prompt \<Rightarrow>
             generate_content svc step_id s =
               Inr (record_generated step_id (fst (generate_with_groq svc s prompt step_id)) s,
                    st_spinner (''Generating '' @ replace_underscores step_id @ ''...'') #
                      snd (generate_with_groq svc s prompt step_id))))"
  by (auto simp: needs_generation_def truthy_def generate_content_def dom_def
      split: option.splits sum.splits prod.splits)

theorem needs_generation_iff_witness:
  "needs_generation ''user_stories'' initial_session_state
   \<and> \<not> needs_generation ''user_stories''
        (initial_session_state\<lparr>generated_content := [''user_stories'' \<mapsto> ''As a user'']\<rparr>)
   \<and> generate_content (\<lambda>k req. Inr ''As a user'') ''user_stories''
        (initial_session_state\<lparr>generated_content := [''user_stories'' \<mapsto> ''As a user'']\<rparr>) =
      Inr (initial_session_state\<lparr>generated_content := [''user_stories'' \<mapsto> ''As a user'']\<rparr>, [])
   \<and> needs_generation ''user_stories''
        (initial_session_state\<lparr>generated_content := [''user_stories'' \<mapsto> ''As a user''],
                               feedback := [''user_stories'' \<mapsto> ''shorter'']\<rparr>)"
proof -
  let ?g = "initial_session_state\<lparr>generated_content := [''user_stories'' \<mapsto> ''As a user'']\<rparr>"
  let ?f = "?g\<lparr>feedback := [''user_stories'' \<mapsto> ''shorter'']\<rparr>"
  have a: "needs_generation ''user_stories'' initial_session_state"
    using needs_generation_iff [of "''user_stories''" initial_session_state]
    by (simp add: initial_session_state_def dom_def)
  have "feedback ?g ''user_stories'' = None"
    by (simp add: initial_session_state_def)
  then have b: "\<not> needs_generation ''user_stories'' ?g"
    using needs_generation_iff [of "''user_stories''" ?g] by (simp add: dom_def)
  from b have c: "generate_content (\<lambda>k req. Inr ''As a user'') ''user_stories'' ?g = Inr (?g, [])"
    using needs_generation_iff [of "''user_stories''" ?g "\<lambda>k req. Inr ''As a user''"] by blast
  have d: "needs_generation ''user_stories'' ?f"
    using needs_generation_iff [of "''user_stories''" ?f] by simp
  from a b c d show ?thesis by simp
qed

subsection \<open>Completion\<close>

lemma length_filter_full: "length (filter P xs) = length xs \<longleftrightarrow> (\<forall>x\<in>set xs. P x)"
proof (induction xs)
  case Nil
  then show ?case by simp
next
  case (Cons x xs)
  have le: "length (filter P xs) \<le> length xs"
    by (rule length_filter_le)
  show ?case
  proof (cases "P x")
    case True
    with Cons.IH show ?thesis by simp
  next
    case False
    from le have "length (filter P xs) \<noteq> Suc (length xs)"
      by linarith
    with False show ?thesis by simp
  qed
qed

lemma dict_get_bool: "dict_get m k False \<longleftrightarrow> m k = Some True"
  by (simp add: dict_get_def split: option.splits)

lemma all_approved_complete:
  "check_workflow_completion (initial_session_state\<lparr>approved := (\<lambda>k. Some True)\<rparr>)"
  by (simp add: check_workflow_completion_def WORKFLOW_STEPS_def dict_get_def)

lemma none_approved_incomplete: "\<not> check_workflow_completion initial_session_state"
  by (simp add: check_workflow_completion_def WORKFLOW_STEPS_def dict_get_def
      initial_session_state_def)

text \<open>
  Claim C5. For every session state, the completion check is true exactly when every
  registry stage other than the intake stage \<^verbatim>\<open>api_input\<close> has its approved flag set to
  true.
\<close>

theorem check_workflow_completion_iff:
  "check_workflow_completion s \<longleftrightarrow>
     (\<forall>st\<in>set WORKFLOW_STEPS. id' st \<noteq> ''api_input'' \<longrightarrow> approved s (id' st) = Some True)"
proof -
  let ?Q = "\<lambda>st. dict_get (approved s) (id' st) False"
  let ?N = "filter (\<lambda>st. id' st \<noteq> ''api_input'') WORKFLOW_STEPS"
  have split: "filter (\<lambda>st. id' st \<noteq> ''api_input'' \<and> ?Q st) WORKFLOW_STEPS = filter ?Q ?N"
    by (simp add: conj_commute)
  have len: "int (length WORKFLOW_STEPS) - 1 = int (length ?N)"
    by (simp add: WORKFLOW_STEPS_def)
  have "check_workflow_completion s \<longleftrightarrow> length (filter ?Q ?N) = length ?N"
    unfolding check_workflow_completion_def Let_def split len by simp
  also have "\<dots> \<longleftrightarrow> (\<forall>st\<in>set ?N. ?Q st)"
    by (rule length_filter_full)
  also have "\<dots> \<longleftrightarrow>
      (\<forall>st\<in>set WORKFLOW_STEPS. id' st \<noteq> ''api_input'' \<longrightarrow> approved s (id' st) = Some True)"
    by (auto simp: dict_get_bool)
  finally show ?thesis .
qed

theorem check_workflow_completion_iff_witness:
  "check_workflow_completion (initial_session_state\<lparr>approved := (\<lambda>k. Some True)\<rparr>)
   \<and> \<not> check_workflow_completion
        (initial_session_state\<lparr>approved := (\<lambda>k. if k = ''monitoring'' then None else Some True)\<rparr>)"
proof -
  have "check_workflow_completion (initial_session_state\<lparr>approved := (\<lambda>k. Some True)\<rparr>)"
    unfolding check_workflow_completion_iff by simp
  moreover have "\<not> check_workflow_completion
      (initial_session_state\<lparr>approved := (\<lambda>k. if k = ''monitoring'' then None else Some True)\<rparr>)"
    unfolding check_workflow_completion_iff by (simp add: WORKFLOW_STEPS_def)
  ultimately show ?thesis by simp
qed

subsection \<open>Feedback submission\<close>

text \<open>
  Claim C7. For every session state and stage: submitting empty feedback is rejected with
  the warning that asks for feedback and leaves the session state as it was; submitting
  non-empty feedback stores the text as the feedback of the stage, sets its approved flag
  to false and changes nothing else, in particular not the current stage.
\<close>

theorem submit_feedback_effect:
  "submit_feedback step_id [] s = (Proceed, s, [st_warning ''Please enter feedback''])
   \<and> (text \<noteq> [] \<longrightarrow>
        (\<exists>s'. submit_feedback step_id text s = (Rerun, s', [])
           \<and> feedback s' = (feedback s)(step_id \<mapsto> text)
           \<and> approved s' = (approved s)(step_id \<mapsto> False)
           \<and> current_step s' = current_step s
           \<and> generated_content s' = generated_content s
           \<and> show_completion_prompt s' = show_completion_prompt s
           \<and> api_key s' = api_key s
           \<and> project_prompt s' = project_prompt s))"
  by (simp add: submit_feedback_def)

theorem submit_feedback_effect_witness:
  "submit_feedback ''user_stories'' [] (initial_session_state\<lparr>current_step := ''user_stories''\<rparr>) =
     (Proceed, initial_session_state\<lparr>current_step := ''user_stories''\<rparr>,
      [st_warning ''Please enter feedback''])
   \<and> (\<exists>s'. submit_feedback ''user_stories'' ''make it shorter''
              (initial_session_state\<lparr>current_step := ''user_stories''\<rparr>) = (Rerun, s', [])
         \<and> feedback s' ''user_stories'' = Some ''make it shorter''
         \<and> approved s' ''user_stories'' = Some False
         \<and> current_step s' = ''user_stories'')"
  using submit_feedback_effect [of "''user_stories''"
      "initial_session_state\<lparr>current_step := ''user_stories''\<rparr>" "''make it shorter''"]
  by auto

subsection \<open>The export and the completion flag\<close>

text \<open>
  Claim C9. For every session state, assembling the export sets the flag that shows the
  completion dialog to true when the workflow is complete and leaves the flag as it was
  otherwise, and it changes no other field of the session: generated content, feedback,
  approvals, current stage, project description and API key stay as they were.
\<close>

theorem download_entire_workflow_frame:
  "show_completion_prompt (snd (download_entire_workflow dumps now s)) =
     (if check_workflow_completion s then True else show_completion_prompt s)
   \<and> generated_content (snd (download_entire_workflow dumps now s)) = generated_content s
   \<and> feedback (snd (download_entire_workflow dumps now s)) = feedback s
   \<and> approved (snd (download_entire_workflow dumps now s)) = approved s
   \<and> current_step (snd (download_entire_workflow dumps now s)) = current_step s
   \<and> project_prompt (snd (download_entire_workflow dumps now s)) = project_prompt s
   \<and> api_key (snd (download_entire_workflow dumps now s)) = api_key s"
  by (simp add: download_entire_workflow_def)

theorem download_entire_workflow_frame_witness:
  "show_completion_prompt
     (snd (download_entire_workflow (\<lambda>doc. []) ''2026-11-04T10:00:00''
        (initial_session_state\<lparr>approved := (\<lambda>k. Some True)\<rparr>)))
   \<and> \<not> show_completion_prompt
        (snd (download_entire_workflow (\<lambda>doc. []) ''2026-11-04T10:00:00''
           initial_session_state))"
proof -
  have "show_completion_prompt initial_session_state = False"
    by (simp add: initial_session_state_def)
  then show ?thesis
    using download_entire_workflow_frame [of "\<lambda>doc. []" "''2026-11-04T10:00:00''"
        "initial_session_state\<lparr>approved := (\<lambda>k. Some True)\<rparr>"]
      download_entire_workflow_frame [of "\<lambda>doc. []" "''2026-11-04T10:00:00''"
        initial_session_state]
      all_approved_complete none_approved_incomplete
    by simp
qed

lemma update_fresh: "k \<notin> fst ` set al \<Longrightarrow> AList.update k v al = al @ [(k, v)]"
  by (induction al) auto

lemma fold_add_step:
  "distinct (map id' xs) \<Longrightarrow> id' ` set xs \<inter> fst ` set acc = {} \<Longrightarrow>
   fold (add_step s) xs acc =
     acc @ concat (map (\<lambda>st. case generated_content s (id' st) of
                           None \<Rightarrow> []
                         | Some c \<Rightarrow> [(id' st, step_entry s (id' st) c)]) xs)"
proof (induction xs arbitrary: acc)
  case Nil
  then show ?case by simp
next
  case (Cons x xs)
  show ?case
  proof (cases "generated_content s (id' x)")
    case None
    with Cons show ?thesis by (simp add: add_step_def Let_def)
  next
    case (Some c)
    let ?e = "step_entry s (id' x) c"
    from Cons.prems have fresh: "id' x \<notin> fst ` set acc" by auto
    then have step: "add_step s x acc = acc @ [(id' x, ?e)]"
      by (simp add: add_step_def Let_def Some update_fresh)
    from Cons.prems have d: "distinct (map id' xs)"
      and disj: "id' ` set xs \<inter> fst ` set (acc @ [(id' x, ?e)]) = {}"
      by auto
    from Cons.IH [OF d disj] step Some show ?thesis by simp
  qed
qed

lemma keys_of_entries:
  "map fst (concat (map (\<lambda>st. case generated_content s (id' st) of
                           None \<Rightarrow> []
                         | Some c \<Rightarrow> [(id' st, step_entry s (id' st) c)]) xs)) =
   filter (\<lambda>k. generated_content s k \<noteq> None) (map id' xs)"
  by (induction xs) (auto split: option.splits)

lemma lookup_of_entries:
  "map_of (concat (map (\<lambda>st. case generated_content s (id' st) of
                           None \<Rightarrow> []
                         | Some c \<Rightarrow> [(id' st, step_entry s (id' st) c)]) xs)) k =
   (if k \<in> id' ` set xs then map_option (step_entry s k) (generated_content s k) else None)"
  by (induction xs) (auto split: option.splits)

subsection \<open>Export\<close>

text \<open>
  Claim C6. For every session state, what the export returns is the serialisation of a
  document with the project description, the timestamp and a steps object. The keys of
  the steps object are exactly the registry stage ids that have generated content, in
  registry order, so a stage without generated content is left out; and the entry of each
  such stage carries its content, its feedback (the empty string when it has none) and its
  approved flag (false when it has none).
\<close>

theorem export_steps:
  "\<exists>steps.
     fst (download_entire_workflow dumps now s) =
       dumps (JObject
         [(''project'', JString (case project_prompt s of None \<Rightarrow> [] | Some p \<Rightarrow> p)),
          (''timestamp'', JString now),
          (''steps'', JObject steps)])
     \<and> map fst steps =
         filter (\<lambda>k. generated_content s k \<noteq> None) (map id' WORKFLOW_STEPS)
     \<and> (\<forall>k\<in>set (map id' WORKFLOW_STEPS). \<forall>c. generated_content s k = Some c \<longrightarrow>
           map_of steps k =
             Some (JObject
               [(''content'', JString c),
                (''feedback'', JString (case feedback s k of None \<Rightarrow> [] | Some f \<Rightarrow> f)),
                (''approved'', JBool (case approved s k of None \<Rightarrow> False | Some b \<Rightarrow> b))]))"
proof -
  let ?steps = "concat (map (\<lambda>st. case generated_content s (id' st) of
                           None \<Rightarrow> []
                         | Some c \<Rightarrow> [(id' st, step_entry s (id' st) c)]) WORKFLOW_STEPS)"
  have "fold (add_step s) WORKFLOW_STEPS [] = ?steps"
    using fold_add_step [OF distinct_WORKFLOW_STEPS, of "[]" s] by simp
  then have doc: "fst (download_entire_workflow dumps now s) =
      dumps (JObject
        [(''project'', JString (case project_prompt s of None \<Rightarrow> [] | Some p \<Rightarrow> p)),
         (''timestamp'', JString now),
         (''steps'', JObject ?steps)])"
    by (simp add: download_entire_workflow_def workflow_data_def)
  have keys: "map fst ?steps =
      filter (\<lambda>k. generated_content s k \<noteq> None) (map id' WORKFLOW_STEPS)"
    by (rule keys_of_entries)
  have entries: "\<forall>k\<in>set (map id' WORKFLOW_STEPS). \<forall>c. generated_content s k = Some c \<longrightarrow>
      map_of ?steps k =
        Some (JObject
          [(''content'', JString c),
           (''feedback'', JString (case feedback s k of None \<Rightarrow> [] | Some f \<Rightarrow> f)),
           (''approved'', JBool (case approved s k of None \<Rightarrow> False | Some b \<Rightarrow> b))])"
    unfolding lookup_of_entries by (auto simp: step_entry_def dict_get_def)
  from doc keys entries show ?thesis by blast
qed

theorem export_steps_witness:
  "\<forall>dumps.
     fst (download_entire_workflow dumps ''2026-11-04T10:00:00''
            (initial_session_state\<lparr>generated_content := [''user_stories'' \<mapsto> ''As a user''],
                                   project_prompt := Some ''shop''\<rparr>)) =
     dumps (JObject [(''project'', JString ''shop''),
                     (''timestamp'', JString ''2026-11-04T10:00:00''),
                     (''steps'', JObject [(''user_stories'',
                        JObject [(''content'', JString ''As a user''),
                                 (''feedback'', JString []),
                                 (''approved'', JBool False)])])])"
proof
  fix dumps :: "json \<Rightarrow> string"
  let ?s = "initial_session_state\<lparr>generated_content := [''user_stories'' \<mapsto> ''As a user''],
                                   project_prompt := Some ''shop''\<rparr>"
  let ?e = "JObject [(''content'', JString ''As a user''),
                     (''feedback'', JString []),
                     (''approved'', JBool False)]"
  have ids: "filter (\<lambda>k. generated_content ?s k \<noteq> None) (map id' WORKFLOW_STEPS) =
      [''user_stories'']"
    by (simp add: WORKFLOW_STEPS_def)
  have mem: "''user_stories'' \<in> set (map id' WORKFLOW_STEPS)"
    by (simp add: WORKFLOW_STEPS_def)
  have gc: "generated_content ?s ''user_stories'' = Some ''As a user''"
    by simp
  have fb: "feedback ?s ''user_stories'' = None" and ap: "approved ?s ''user_stories'' = None"
    by (simp_all add: initial_session_state_def)
  have pp: "project_prompt ?s = Some ''shop''"
    by simp
  from export_steps [of dumps "''2026-11-04T10:00:00''" ?s] obtain steps where
    doc: "fst (download_entire_workflow dumps ''2026-11-04T10:00:00'' ?s) =
       dumps (JObject
         [(''project'', JString (case project_prompt ?s of None \<Rightarrow> [] | Some p \<Rightarrow> p)),
          (''timestamp'', JString ''2026-11-04T10:00:00''),
          (''steps'', JObject steps)])"
    and keys: "map fst steps =
       filter (\<lambda>k. generated_content ?s k \<noteq> None) (map id' WORKFLOW_STEPS)"
    and entries: "\<forall>k\<in>set (map id' WORKFLOW_STEPS). \<forall>c. generated_content ?s k = Some c \<longrightarrow>
       map_of steps k =
         Some (JObject
           [(''content'', JString c),
            (''feedback'', JString (case feedback ?s k of None \<Rightarrow> [] | Some f \<Rightarrow> f)),
            (''approved'', JBool (case approved ?s k of None \<Rightarrow> False | Some b \<Rightarrow> b))])"
    by blast
  from entries mem gc have "map_of steps ''user_stories'' =
      Some (JObject
        [(''content'', JString ''As a user''),
         (''feedback'', JString (case feedback ?s ''user_stories'' of None \<Rightarrow> [] | Some f \<Rightarrow> f)),
         (''approved'', JBool (case approved ?s ''user_stories'' of None \<Rightarrow> False | Some b \<Rightarrow> b))])"
    by blast
  then have look: "map_of steps ''user_stories'' = Some ?e"
    unfolding fb ap by simp
  from keys ids have "map fst steps = [''user_stories'']"
    by simp
  then obtain v where "steps = [(''user_stories'', v)]"
    by (cases steps) auto
  with look have "steps = [(''user_stories'', ?e)]"
    by simp
  with doc show "fst (download_entire_workflow dumps ''2026-11-04T10:00:00'' ?s) =
     dumps (JObject [(''project'', JString ''shop''),
                     (''timestamp'', JString ''2026-11-04T10:00:00''),
                     (''steps'', JObject [(''user_stories'', ?e)])])"
    unfolding pp by simp
qed

subsection \<open>Formatting a template\<close>

lemma map_sum_Cons_append:
  "map_sum id ((#) a) (map_sum id ((@) pre) r) = map_sum id ((@) (a # pre)) r"
  by (cases r) simp_all

lemma str_format_literal:
  "CHR ''{'' \<notin> set pre \<Longrightarrow> CHR ''}'' \<notin> set pre \<Longrightarrow>
   str_format v (pre @ rest) = map_sum id ((@) pre) (str_format v rest)"
proof (induction pre)
  case Nil
  show ?case by (cases "str_format v rest") simp_all
next
  case (Cons a pre)
  from Cons.prems have a: "a \<noteq> CHR ''{''" "a \<noteq> CHR ''}''"
    and pre: "CHR ''{'' \<notin> set pre" "CHR ''}'' \<notin> set pre"
    by auto
  have "str_format v ((a # pre) @ rest) = map_sum id ((#) a) (str_format v (pre @ rest))"
    using a by simp
  also have "\<dots> = map_sum id ((#) a) (map_sum id ((@) pre) (str_format v rest))"
    unfolding Cons.IH [OF pre] ..
  also have "\<dots> = map_sum id ((@) (a # pre)) (str_format v rest)"
    by (rule map_sum_Cons_append)
  finally show ?case .
qed

lemma str_format_plain:
  "CHR ''{'' \<notin> set t \<Longrightarrow> CHR ''}'' \<notin> set t \<Longrightarrow> str_format v t = Inr t"
  using str_format_literal [of t v "[]"] by simp

lemma str_format_field:
  "str_format v (''{prompt}'' @ rest) = map_sum id ((@) v) (str_format v rest)"
  by simp

lemma str_format_one_slot:
  assumes "CHR ''{'' \<notin> set pre" "CHR ''}'' \<notin> set pre"
    and "CHR ''{'' \<notin> set post" "CHR ''}'' \<notin> set post"
  shows "str_format v (pre @ ''{prompt}'' @ post) = Inr (pre @ v @ post)"
  unfolding str_format_literal [OF assms(1,2)] str_format_field
    str_format_plain [OF assms(3,4)]
  by simp

lemma slot_unique:
  "CHR ''{'' \<notin> set pre \<Longrightarrow> CHR ''{'' \<notin> set pre' \<Longrightarrow>
   pre @ ''{prompt}'' @ post = pre' @ ''{prompt}'' @ post' \<Longrightarrow> pre = pre' \<and> post = post'"
proof (induction pre arbitrary: pre')
  case Nil
  then show ?case by (cases pre') auto
next
  case (Cons a pre)
  then show ?case by (cases pre') auto
qed

lemma in_five: "k \<in> set [a, b, c, d, e] \<longleftrightarrow> k = a \<or> k = b \<or> k = c \<or> k = d \<or> k = e"
  by auto

lemma registry_ids:
  "map id' WORKFLOW_STEPS =
     [''api_input'', ''user_stories'', ''design_docs'', ''code_generation'', ''code_review'',
      ''security_review'', ''test_cases'', ''qa_testing'', ''deployment'', ''monitoring'']"
  by (simp add: WORKFLOW_STEPS_def)

lemma templated_in_registry:
  "''user_stories'' \<in> set (map id' WORKFLOW_STEPS)"
  "''design_docs'' \<in> set (map id' WORKFLOW_STEPS)"
  "''code_generation'' \<in> set (map id' WORKFLOW_STEPS)"
  "''test_cases'' \<in> set (map id' WORKFLOW_STEPS)"
  "''deployment'' \<in> set (map id' WORKFLOW_STEPS)"
  unfolding registry_ids by simp_all

lemma PROMPT_TEMPLATES_keys:
  "map fst PROMPT_TEMPLATES =
     [''user_stories'', ''design_docs'', ''code_generation'', ''test_cases'', ''deployment'']"
  by (simp add: PROMPT_TEMPLATES_def)

lemma template_user_stories:
  "map_of PROMPT_TEMPLATES ''user_stories'' =
     Some (''Generate comprehensive user stories for: '' @ ''{prompt}'' @
           ''. Include acceptance criteria.'')"
  by (simp add: PROMPT_TEMPLATES_def)

lemma template_design_docs:
  "map_of PROMPT_TEMPLATES ''design_docs'' =
     Some (''Create functional and technical design documents for: '' @ ''{prompt}'' @
           ([LF] @
            ''    Functional:'' @ [LF] @
            ''    - User flows'' @ [LF] @
            ''    - Feature specs'' @ [LF] @
            ''    '' @ [LF] @
            ''    Technical:'' @ [LF] @
            ''    - Architecture'' @ [LF] @
            ''    - Tech stack'' @ [LF] @
            ''    - Data models''))"
  by (simp add: PROMPT_TEMPLATES_def)

lemma template_code_generation:
  "map_of PROMPT_TEMPLATES ''code_generation'' =
     Some (''Generate production-ready code for: '' @ ''{prompt}'' @
           ''. Include error handling and docs.'')"
  by (simp add: PROMPT_TEMPLATES_def)

lemma template_test_cases:
  "map_of PROMPT_TEMPLATES ''test_cases'' =
     Some (''Create test cases for: '' @ ''{prompt}'' @
           ''. Include positive/negative scenarios.'')"
  by (simp add: PROMPT_TEMPLATES_def)

lemma template_deployment:
  "map_of PROMPT_TEMPLATES ''deployment'' =
     Some (''Create deployment plan for: '' @ ''{prompt}'' @ ''. Include rollback strategy.'')"
  by (simp add: PROMPT_TEMPLATES_def)

lemma build_prompt_slot:
  assumes tpl: "map_of PROMPT_TEMPLATES k = Some (pre @ ''{prompt}'' @ post)"
    and pre: "CHR ''{'' \<notin> set pre" "CHR ''}'' \<notin> set pre"
    and post: "CHR ''{'' \<notin> set post" "CHR ''}'' \<notin> set post"
    and p: "project_prompt s = Some p"
  shows "build_prompt k s =
      Inr (pre @ p @ post @
           (case feedback s k of
              None \<Rightarrow> []
            | Some fb \<Rightarrow> if fb \<noteq> [] then [LF, LF] @ ''Feedback: '' @ fb else []))"
proof -
  have "dict_get (map_of PROMPT_TEMPLATES) k [] = pre @ ''{prompt}'' @ post"
    unfolding dict_get_def tpl by simp
  then have "str_format p (dict_get (map_of PROMPT_TEMPLATES) k []) = Inr (pre @ p @ post)"
    using str_format_one_slot [OF pre post] by simp
  then show ?thesis
    unfolding build_prompt_def p by (simp split: option.splits)
qed

lemma slot_template:
  assumes "map_of PROMPT_TEMPLATES k = Some (pre @ ''{prompt}'' @ post)"
    and "CHR ''{'' \<notin> set pre" "CHR ''}'' \<notin> set pre"
    and "CHR ''{'' \<notin> set post" "CHR ''}'' \<notin> set post"
  shows "\<exists>pre post.
      map_of PROMPT_TEMPLATES k = Some (pre @ ''{prompt}'' @ post)
      \<and> CHR ''{'' \<notin> set pre \<and> CHR ''}'' \<notin> set pre
      \<and> CHR ''{'' \<notin> set post \<and> CHR ''}'' \<notin> set post
      \<and> (\<forall>s p. project_prompt s = Some p \<longrightarrow>
            build_prompt k s =
              Inr (pre @ p @ post @
                   (case feedback s k of
                      None \<Rightarrow> []
                    | Some fb \<Rightarrow> if fb \<noteq> [] then [LF, LF] @ ''Feedback: '' @ fb else [])))"
  using assms build_prompt_slot [OF assms] by blast

lemma template_slot:
  assumes "k \<in> set (map fst PROMPT_TEMPLATES)"
  shows "\<exists>pre post.
      map_of PROMPT_TEMPLATES k = Some (pre @ ''{prompt}'' @ post)
      \<and> CHR ''{'' \<notin> set pre \<and> CHR ''}'' \<notin> set pre
      \<and> CHR ''{'' \<notin> set post \<and> CHR ''}'' \<notin> set post
      \<and> (\<forall>s p. project_prompt s = Some p \<longrightarrow>
            build_prompt k s =
              Inr (pre @ p @ post @
                   (case feedback s k of
                      None \<Rightarrow> []
                    | Some fb \<Rightarrow> if fb \<noteq> [] then [LF, LF] @ ''Feedback: '' @ fb else [])))"
proof -
  from assms have "k = ''user_stories'' \<or> k = ''design_docs'' \<or> k = ''code_generation''
      \<or> k = ''test_cases'' \<or> k = ''deployment''"
    unfolding PROMPT_TEMPLATES_keys in_five .
  then consider "k = ''user_stories''" | "k = ''design_docs''" | "k = ''code_generation''"
    | "k = ''test_cases''" | "k = ''deployment''"
    by (elim disjE) assumption+
  then show ?thesis
  proof cases
    case 1
    show ?thesis unfolding 1 by (rule slot_template [OF template_user_stories]) simp_all
  next
    case 2
    show ?thesis unfolding 2
      by (rule slot_template [OF template_design_docs]) (simp_all add: LF_def)
  next
    case 3
    show ?thesis unfolding 3 by (rule slot_template [OF template_code_generation]) simp_all
  next
    case 4
    show ?thesis unfolding 4 by (rule slot_template [OF template_test_cases]) simp_all
  next
    case 5
    show ?thesis unfolding 5 by (rule slot_template [OF template_deployment]) simp_all
  qed
qed

subsection \<open>Stages and their templates\<close>

text \<open>
  Claim C8 says that every registry stage, in particular every stage from
  \<^verbatim>\<open>user_stories\<close> to \<^verbatim>\<open>monitoring\<close>, has a prompt template with the slot
  \<^verbatim>\<open>{prompt}\<close>, into which rendering substitutes the project description. The table has
  five keys. \<^verbatim>\<open>code_review\<close> is a registry stage other than the intake stage and has no
  template: line 144 falls back to the empty string, so the prompt built for it is empty
  and does not contain the project description.
\<close>

theorem code_review_template_counterexample:
  "''code_review'' \<in> set (map id' WORKFLOW_STEPS)
   \<and> ''code_review'' \<noteq> ''api_input''
   \<and> map_of PROMPT_TEMPLATES ''code_review'' = None
   \<and> build_prompt ''code_review'' (initial_session_state\<lparr>project_prompt := Some ''shop''\<rparr>) =
       Inr []"
proof -
  have "''code_review'' \<in> set (map id' WORKFLOW_STEPS)"
    unfolding registry_ids by simp
  moreover have none: "map_of PROMPT_TEMPLATES ''code_review'' = None"
    by (simp add: PROMPT_TEMPLATES_def)
  moreover have
    "build_prompt ''code_review'' (initial_session_state\<lparr>project_prompt := Some ''shop''\<rparr>) =
       Inr []"
    unfolding build_prompt_def dict_get_def none
    by (simp add: initial_session_state_def)
  ultimately show ?thesis by simp
qed

text \<open>
  Claim C8 as amended. The stages \<^verbatim>\<open>user_stories\<close>, \<^verbatim>\<open>design_docs\<close>,
  \<^verbatim>\<open>code_generation\<close>, \<^verbatim>\<open>test_cases\<close> and \<^verbatim>\<open>deployment\<close> are registry stages with
  a prompt template. Each of these templates contains the substitution slot
  \<^verbatim>\<open>{prompt}\<close> once and no other brace, and for every session with a project description
  the prompt built for such a stage is its template with the description in place of the
  slot, followed by the pending feedback of the stage when there is some.
\<close>

theorem templated_stages:
  "map fst PROMPT_TEMPLATES =
     [''user_stories'', ''design_docs'', ''code_generation'', ''test_cases'', ''deployment'']
   \<and> (\<forall>k\<in>set (map fst PROMPT_TEMPLATES).
        k \<in> set (map id' WORKFLOW_STEPS)
        \<and> (\<exists>pre post.
              map_of PROMPT_TEMPLATES k = Some (pre @ ''{prompt}'' @ post)
              \<and> CHR ''{'' \<notin> set pre \<and> CHR ''}'' \<notin> set pre
              \<and> CHR ''{'' \<notin> set post \<and> CHR ''}'' \<notin> set post
              \<and> (\<forall>s p. project_prompt s = Some p \<longrightarrow>
                    build_prompt k s =
                      Inr (pre @ p @ post @
                           (case feedback s k of
                              None \<Rightarrow> []
                            | Some fb \<Rightarrow>
                                if fb \<noteq> [] then [LF, LF] @ ''Feedback: '' @ fb else [])))))"
proof (intro conjI ballI)
  show "map fst PROMPT_TEMPLATES =
     [''user_stories'', ''design_docs'', ''code_generation'', ''test_cases'', ''deployment'']"
    by (rule PROMPT_TEMPLATES_keys)
next
  fix k assume "k \<in> set (map fst PROMPT_TEMPLATES)"
  then have "k = ''user_stories'' \<or> k = ''design_docs'' \<or> k = ''code_generation''
      \<or> k = ''test_cases'' \<or> k = ''deployment''"
    unfolding PROMPT_TEMPLATES_keys in_five .
  then show "k \<in> set (map id' WORKFLOW_STEPS)"
    using templated_in_registry by (elim disjE) simp_all
next
  fix k assume "k \<in> set (map fst PROMPT_TEMPLATES)"
  then show "\<exists>pre post.
      map_of PROMPT_TEMPLATES k = Some (pre @ ''{prompt}'' @ post)
      \<and> CHR ''{'' \<notin> set pre \<and> CHR ''}'' \<notin> set pre
      \<and> CHR ''{'' \<notin> set post \<and> CHR ''}'' \<notin> set post
      \<and> (\<forall>s p. project_prompt s = Some p \<longrightarrow>
            build_prompt k s =
              Inr (pre @ p @ post @
                   (case feedback s k of
                      None \<Rightarrow> []
                    | Some fb \<Rightarrow> if fb \<noteq> [] then [LF, LF] @ ''Feedback: '' @ fb else [])))"
    by (rule template_slot)
qed

theorem templated_stages_witness:
  "build_prompt ''user_stories''
     (initial_session_state\<lparr>project_prompt := Some ''a bookshop'',
                            feedback := [''user_stories'' \<mapsto> ''shorter'']\<rparr>) =
   Inr (''Generate comprehensive user stories for: a bookshop. Include acceptance criteria.'' @
        [LF, LF] @ ''Feedback: shorter'')"
proof -
  let ?s = "initial_session_state\<lparr>project_prompt := Some ''a bookshop'',
                                   feedback := [''user_stories'' \<mapsto> ''shorter'']\<rparr>"
  have key: "''user_stories'' \<in> set (map fst PROMPT_TEMPLATES)"
    by (simp add: PROMPT_TEMPLATES_keys)
  have p: "project_prompt ?s = Some ''a bookshop''"
    by simp
  have fb: "feedback ?s ''user_stories'' = Some ''shorter''"
    by simp
  from templated_stages key obtain pre post where
    tpl: "map_of PROMPT_TEMPLATES ''user_stories'' = Some (pre @ ''{prompt}'' @ post)"
    and pre: "CHR ''{'' \<notin> set pre"
    and built: "\<forall>s p. project_prompt s = Some p \<longrightarrow>
        build_prompt ''user_stories'' s =
          Inr (pre @ p @ post @
               (case feedback s ''user_stories'' of
                  None \<Rightarrow> []
                | Some fb \<Rightarrow> if fb \<noteq> [] then [LF, LF] @ ''Feedback: '' @ fb else []))"
    by blast
  from tpl template_user_stories
  have "pre @ ''{prompt}'' @ post =
      ''Generate comprehensive user stories for: '' @ ''{prompt}'' @
      ''. Include acceptance criteria.''"
    by simp
  from slot_unique [OF pre _ this]
  have pp: "pre = ''Generate comprehensive user stories for: ''"
    "post = ''. Include acceptance criteria.''"
    by simp_all
  from built p have "build_prompt ''user_stories'' ?s =
      Inr (pre @ ''a bookshop'' @ post @
           (case feedback ?s ''user_stories'' of
              None \<Rightarrow> []
            | Some fb \<Rightarrow> if fb \<noteq> [] then [LF, LF] @ ''Feedback: '' @ fb else []))"
    by blast
  then show ?thesis
    unfolding pp fb by simp
qed

subsection \<open>A failing generation call\<close>

lemma build_prompt_total:
  assumes "project_prompt s = Some p"
  shows "\<exists>prompt. build_prompt step_id s = Inr prompt"
proof (cases "map_of PROMPT_TEMPLATES step_id")
  case None
  then show ?thesis
    unfolding build_prompt_def dict_get_def assms by (simp split: option.splits)
next
  case (Some t)
  then have "step_id \<in> set (map fst PROMPT_TEMPLATES)"
    by (auto dest: map_of_SomeD intro: rev_image_eqI)
  from template_slot [OF this] assms show ?thesis
    by blast
qed

text \<open>
  Claim C1 says that after a failing generation call nothing is stored, so that the stage
  still needs generation and the next render retries. The generator has no error value:
  it catches the exception, shows it and returns the empty string, and line 149 stores
  whatever the generator returned. With a service that cannot be reached and no pending
  feedback, rendering \<^verbatim>\<open>user_stories\<close> stores the empty string as its content; the stage
  then no longer needs generation and a second render calls nothing.
\<close>

theorem failed_generation_counterexample:
  "generate_content unreachable_service ''user_stories''
     (initial_session_state\<lparr>current_step := ''user_stories'', api_key := Some ''key'',
                            project_prompt := Some ''shop''\<rparr>) =
     Inr (initial_session_state\<lparr>current_step := ''user_stories'', api_key := Some ''key'',
                                 project_prompt := Some ''shop'',
                                 generated_content := [''user_stories'' \<mapsto> []]\<rparr>,
          [st_spinner ''Generating user stories...'',
           st_error_exc (ServiceError ''connection refused'')])
   \<and> generated_content
        (initial_session_state\<lparr>current_step := ''user_stories'', api_key := Some ''key'',
                               project_prompt := Some ''shop'',
                               generated_content := [''user_stories'' \<mapsto> []]\<rparr>)
        ''user_stories'' = Some []
   \<and> \<not> needs_generation ''user_stories''
        (initial_session_state\<lparr>current_step := ''user_stories'', api_key := Some ''key'',
                               project_prompt := Some ''shop'',
                               generated_content := [''user_stories'' \<mapsto> []]\<rparr>)
   \<and> generate_content unreachable_service ''user_stories''
        (initial_session_state\<lparr>current_step := ''user_stories'', api_key := Some ''key'',
                               project_prompt := Some ''shop'',
                               generated_content := [''user_stories'' \<mapsto> []]\<rparr>) =
       Inr (initial_session_state\<lparr>current_step := ''user_stories'', api_key := Some ''key'',
                                   project_prompt := Some ''shop'',
                                   generated_content := [''user_stories'' \<mapsto> []]\<rparr>, [])"
proof -
  let ?s = "initial_session_state\<lparr>current_step := ''user_stories'', api_key := Some ''key'',
                                   project_prompt := Some ''shop''\<rparr>"
  let ?s' = "initial_session_state\<lparr>current_step := ''user_stories'', api_key := Some ''key'',
                                    project_prompt := Some ''shop'',
                                    generated_content := [''user_stories'' \<mapsto> []]\<rparr>"
  have need: "needs_generation ''user_stories'' ?s"
    by (simp add: needs_generation_def initial_session_state_def)
  have p: "project_prompt ?s = Some ''shop''"
    by simp
  from build_prompt_total [OF p] obtain prompt where
    built: "build_prompt ''user_stories'' ?s = Inr prompt"
    by blast
  have call: "generate_with_groq unreachable_service ?s prompt ''user_stories'' =
      ([], [st_error_exc (ServiceError ''connection refused'')])"
    by (simp add: generate_with_groq_def unreachable_service_def)
  have stored: "record_generated ''user_stories'' [] ?s = ?s'"
    by (simp add: record_generated_def initial_session_state_def)
  have label: "replace_underscores ''user_stories'' = ''user stories''"
    by (simp add: replace_underscores_def)
  have first: "generate_content unreachable_service ''user_stories'' ?s =
      Inr (?s', [st_spinner ''Generating user stories...'',
                 st_error_exc (ServiceError ''connection refused'')])"
    using need built call by (simp add: generate_content_def stored label)
  have present: "generated_content ?s' ''user_stories'' = Some []"
    by simp
  have settled: "\<not> needs_generation ''user_stories'' ?s'"
    by (simp add: needs_generation_def truthy_def initial_session_state_def)
  then have second: "generate_content unreachable_service ''user_stories'' ?s' = Inr (?s', [])"
    unfolding generate_content_def by simp
  from first present settled second show ?thesis
    by blast
qed

text \<open>
  Claim C1 as amended. For every stage that needs generation and whose prompt has been
  built, and every generation call that fails with an error, whether the completion
  service raises it for this key and this request or the API key is missing: the generator
  shows the error and returns the empty string, the render path stores the empty string as
  the generated content of the stage, so the content is present afterwards, and the stage
  needs generation on the next render exactly when it has non-empty feedback; when it has
  none, the next render calls nothing, whatever the service would answer then, and the
  failed generation is not retried.
\<close>

theorem failed_generation_stores_empty:
  assumes "needs_generation step_id s"
    and "build_prompt step_id s = Inr prompt"
    and "api_key s = None \<and> e = AttributeError ''api_key'' \<or>
      (\<exists>k. api_key s = Some k \<and>
         svc k \<lparr>model = ''llama3-70b-8192'',
                 messages =
                   [(''system'',
                     ''Expert SDLC assistant. Provide detailed output for '' @ step_id @ ''.''),
                    (''user'', prompt)],
                 temperature_tenths = 3,
                 max_tokens = 4000\<rparr> = Inl e)"
  shows "generate_with_groq svc s prompt step_id = ([], [st_error_exc e])
    \<and> generate_content svc step_id s =
        Inr (record_generated step_id [] s,
             [st_spinner (''Generating '' @ replace_underscores step_id @ ''...''),
              st_error_exc e])
    \<and> generated_content (record_generated step_id [] s) step_id = Some []
    \<and> (needs_generation step_id (record_generated step_id [] s) \<longleftrightarrow>
         truthy (feedback s step_id))
    \<and> (\<not> truthy (feedback s step_id) \<longrightarrow>
         generate_content svc' step_id (record_generated step_id [] s) =
           Inr (record_generated step_id [] s, []))"
proof -
  let ?s' = "record_generated step_id [] s"
  have call: "generate_with_groq svc s prompt step_id = ([], [st_error_exc e])"
    using assms(3) by (auto simp: generate_with_groq_def)
  have first: "generate_content svc step_id s =
      Inr (?s', [st_spinner (''Generating '' @ replace_underscores step_id @ ''...''),
                 st_error_exc e])"
    using assms(1,2) call by (simp add: generate_content_def)
  have present: "generated_content ?s' step_id = Some []"
    by (simp add: record_generated_def)
  have again: "needs_generation step_id ?s' \<longleftrightarrow> truthy (feedback s step_id)"
    by (simp add: needs_generation_def record_generated_def)
  then have quiet: "\<not> truthy (feedback s step_id) \<longrightarrow>
      generate_content svc' step_id ?s' = Inr (?s', [])"
    by (simp add: generate_content_def)
  from call first present again quiet show ?thesis
    by blast
qed

theorem failed_generation_stores_empty_witness:
  "generate_content
     (\<lambda>k req. if k = ''expired'' then Inl (ServiceError ''invalid api key'') else Inr ''text'')
     ''user_stories''
     (initial_session_state\<lparr>api_key := Some ''expired'', project_prompt := Some ''shop''\<rparr>) =
     Inr (record_generated ''user_stories'' []
            (initial_session_state\<lparr>api_key := Some ''expired'',
                                   project_prompt := Some ''shop''\<rparr>),
          [st_spinner ''Generating user stories...'',
           st_error_exc (ServiceError ''invalid api key'')])
   \<and> generated_content
        (record_generated ''user_stories'' []
           (initial_session_state\<lparr>api_key := Some ''expired'',
                                  project_prompt := Some ''shop''\<rparr>))
        ''user_stories'' = Some []
   \<and> \<not> needs_generation ''user_stories''
        (record_generated ''user_stories'' []
           (initial_session_state\<lparr>api_key := Some ''expired'',
                                  project_prompt := Some ''shop''\<rparr>))"
proof -
  let ?s = "initial_session_state\<lparr>api_key := Some ''expired'',
                                   project_prompt := Some ''shop''\<rparr>"
  let ?svc = "\<lambda>k req. if k = ''expired'' then Inl (ServiceError ''invalid api key'')
                       else Inr ''text''"
  let ?prompt = "''Generate comprehensive user stories for: '' @ ''shop'' @
                 ''. Include acceptance criteria.'' @ []"
  have need: "needs_generation ''user_stories'' ?s"
    by (simp add: needs_generation_def initial_session_state_def)
  have fb: "feedback ?s ''user_stories'' = None"
    by (simp add: initial_session_state_def)
  have "build_prompt ''user_stories'' ?s =
      Inr (''Generate comprehensive user stories for: '' @ ''shop'' @
           ''. Include acceptance criteria.'' @
           (case feedback ?s ''user_stories'' of
              None \<Rightarrow> []
            | Some fb \<Rightarrow> if fb \<noteq> [] then [LF, LF] @ ''Feedback: '' @ fb else []))"
    by (rule build_prompt_slot [OF template_user_stories]) simp_all
  then have built: "build_prompt ''user_stories'' ?s = Inr ?prompt"
    unfolding fb by simp
  have fails: "api_key ?s = None \<and> ServiceError ''invalid api key'' = AttributeError ''api_key'' \<or>
      (\<exists>k. api_key ?s = Some k \<and>
         ?svc k \<lparr>model = ''llama3-70b-8192'',
                  messages =
                    [(''system'',
                      ''Expert SDLC assistant. Provide detailed output for '' @
                      ''user_stories'' @ ''.''),
                     (''user'', ?prompt)],
                  temperature_tenths = 3,
                  max_tokens = 4000\<rparr> = Inl (ServiceError ''invalid api key''))"
    by simp
  have nofb: "\<not> truthy (feedback ?s ''user_stories'')"
    unfolding fb by (simp add: truthy_def)
  have label: "replace_underscores ''user_stories'' = ''user stories''"
    by (simp add: replace_underscores_def)
  from failed_generation_stores_empty [where svc = ?svc, OF need built fails] nofb
  show ?thesis
    by (simp add: label)
qed

subsection \<open>Approving twice\<close>

lemma find_distinct:
  "distinct (map f xs) \<Longrightarrow> i < length xs \<Longrightarrow> find (\<lambda>x. f x = f (xs ! i)) xs = Some (xs ! i)"
proof (induction xs arbitrary: i)
  case Nil
  then show ?case by simp
next
  case (Cons x xs)
  show ?case
  proof (cases i)
    case 0
    then show ?thesis by simp
  next
    case (Suc j)
    with Cons.prems have j: "j < length xs" and "f (xs ! j) \<in> f ` set xs" and "f x \<notin> f ` set xs"
      by auto
    then have "f x \<noteq> f (xs ! j)"
      by metis
    with Cons.IH [of j] Cons.prems j Suc show ?thesis
      by simp
  qed
qed

lemma find_registry:
  "i < length WORKFLOW_STEPS \<Longrightarrow>
   find (\<lambda>st. id' st = id' (WORKFLOW_STEPS ! i)) WORKFLOW_STEPS = Some (WORKFLOW_STEPS ! i)"
  by (rule find_distinct [OF distinct_WORKFLOW_STEPS])

lemma registry_ids_differ:
  assumes "i < length WORKFLOW_STEPS" "j < length WORKFLOW_STEPS" "i \<noteq> j"
  shows "id' (WORKFLOW_STEPS ! i) \<noteq> id' (WORKFLOW_STEPS ! j)"
  using nth_eq_iff_index_eq [OF distinct_WORKFLOW_STEPS, of i j] assms by simp

lemma later_stage_not_intake:
  assumes "0 < i" "i < length WORKFLOW_STEPS"
  shows "id' (WORKFLOW_STEPS ! i) \<noteq> ''api_input''"
proof -
  have first: "id' (WORKFLOW_STEPS ! 0) = ''api_input''"
    by (simp add: WORKFLOW_STEPS_def)
  have "(0::nat) < length WORKFLOW_STEPS"
    by (simp add: length_WORKFLOW_STEPS)
  from registry_ids_differ [OF assms(2) this] assms(1)
  have "id' (WORKFLOW_STEPS ! i) \<noteq> id' (WORKFLOW_STEPS ! 0)"
    by simp
  then show ?thesis
    unfolding first .
qed

lemma generate_content_total:
  assumes "project_prompt s = Some p"
  shows "\<exists>s1 ev. generate_content svc k s = Inr (s1, ev)
      \<and> approved s1 = approved s \<and> current_step s1 = current_step s
      \<and> project_prompt s1 = project_prompt s
      \<and> (\<exists>c. generated_content s1 k = Some c)"
proof (cases "needs_generation k s")
  case True
  from build_prompt_total [OF assms] obtain prompt where
    "build_prompt k s = Inr prompt"
    by blast
  with True show ?thesis
    by (simp add: generate_content_def record_generated_def split: prod.splits)
next
  case False
  then show ?thesis
    by (auto simp: generate_content_def needs_generation_def)
qed

lemma render_sdlc_step_idle:
  assumes "\<not> approve_clicked inp" "\<not> submit_clicked inp" "project_prompt s = Some p"
  shows "\<exists>s' ev. render_sdlc_step svc inp k s = Inr (Proceed, s', ev)
      \<and> approved s' = approved s \<and> current_step s' = current_step s"
proof -
  from generate_content_total [OF assms(3)] obtain s1 ev c where
    "generate_content svc k s = Inr (s1, ev)"
    "approved s1 = approved s" "current_step s1 = current_step s"
    "generated_content s1 k = Some c"
    by blast
  with assms(1,2) show ?thesis
    by (simp add: render_sdlc_step_def)
qed

lemma render_sdlc_step_approve:
  assumes "approve_clicked inp"
    and "i + 1 < length WORKFLOW_STEPS"
    and "current_step s = id' (WORKFLOW_STEPS ! i)"
    and "project_prompt s = Some p"
  shows "\<exists>s' ev. render_sdlc_step svc inp k s = Inr (Rerun, s', ev)
      \<and> approved s' = (approved s)(k \<mapsto> True)
      \<and> current_step s' = id' (WORKFLOW_STEPS ! (i + 1))
      \<and> project_prompt s' = Some p"
proof -
  from generate_content_total [OF assms(4)] obtain s1 ev c where
    gen: "generate_content svc k s = Inr (s1, ev)"
    and s1: "approved s1 = approved s" "current_step s1 = current_step s"
      "project_prompt s1 = project_prompt s"
    and c: "generated_content s1 k = Some c"
    by blast
  let ?a = "s1\<lparr>approved := (approved s1)(k \<mapsto> True)\<rparr>"
  let ?s' = "?a\<lparr>current_step := id' (WORKFLOW_STEPS ! (i + 1))\<rparr>"
  from assms(2) have i: "i < length WORKFLOW_STEPS"
    by simp
  have cur: "current_step ?a = id' (WORKFLOW_STEPS ! i)"
    using s1(2) assms(3) by simp
  have appr: "approve k s1 = Inr (Rerun, ?s')"
    unfolding approve_def move_to_next_step_at [OF i cur] using assms(2) by simp
  have "render_sdlc_step svc inp k s = Inr (Rerun, ?s', ev @ [st_markdown c])"
    using gen c appr assms(1) by (simp add: render_sdlc_step_def)
  moreover have "approved ?s' = (approved s)(k \<mapsto> True)"
    using s1(1) by simp
  moreover have "current_step ?s' = id' (WORKFLOW_STEPS ! (i + 1))"
    by simp
  moreover have "project_prompt ?s' = Some p"
    using s1(3) assms(4) by simp
  ultimately show ?thesis
    by blast
qed

text \<open>
  Claim C3. The user approves a stage twice in a row. The first action reaches the script
  while that stage is the current one, a registry stage after the intake stage and before
  the last, in a session with a project description: the run marks the stage approved and
  moves to the next registry entry, so the stage is no longer current. The second action
  for the same stage then reaches a run that renders the new current stage only; its
  buttons carry other keys, no handler runs, and the approvals and the current stage are
  exactly as they were after the first run.
\<close>

theorem approve_twice:
  assumes "0 < i" and "i + 1 < length WORKFLOW_STEPS"
    and "step_id = id' (WORKFLOW_STEPS ! i)"
    and "current_step s = step_id"
    and "project_prompt s = Some p"
    and "clicked w = Some (''approve_'' @ step_id)"
  shows "\<exists>s1 ev1 s2 ev2.
      render_step svc w (current_step s) s = Inr (Rerun, s1, ev1)
      \<and> approved s1 = (approved s)(step_id \<mapsto> True)
      \<and> current_step s1 = id' (WORKFLOW_STEPS ! (i + 1))
      \<and> current_step s1 \<noteq> step_id
      \<and> render_step svc' w (current_step s1) s1 = Inr (Proceed, s2, ev2)
      \<and> approved s2 = approved s1
      \<and> current_step s2 = current_step s1"
proof -
  let ?next = "id' (WORKFLOW_STEPS ! (i + 1))"
  from assms(2) have i: "i < length WORKFLOW_STEPS"
    by simp
  have stage: "step_id \<noteq> ''api_input''"
    unfolding assms(3) by (rule later_stage_not_intake [OF assms(1) i])
  have next_stage: "?next \<noteq> ''api_input''"
    by (rule later_stage_not_intake [OF _ assms(2)]) simp
  have moved: "?next \<noteq> step_id"
    unfolding assms(3) using registry_ids_differ [OF assms(2) i] by simp
  have found: "find (\<lambda>st. id' st = step_id) WORKFLOW_STEPS = Some (WORKFLOW_STEPS ! i)"
    unfolding assms(3) by (rule find_registry [OF i])
  have found_next:
    "find (\<lambda>st. id' st = ?next) WORKFLOW_STEPS = Some (WORKFLOW_STEPS ! (i + 1))"
    by (rule find_registry [OF assms(2)])
  have click: "approve_clicked (stage_controls w step_id)"
    by (simp add: stage_controls_def assms(6))
  have cur: "current_step s = id' (WORKFLOW_STEPS ! i)"
    using assms(3,4) by simp
  from render_sdlc_step_approve [OF click assms(2) cur assms(5)] obtain s1 ev where
    run1: "render_sdlc_step svc (stage_controls w step_id) step_id s = Inr (Rerun, s1, ev)"
    and a1: "approved s1 = (approved s)(step_id \<mapsto> True)"
    and c1: "current_step s1 = ?next"
    and p1: "project_prompt s1 = Some p"
    by blast
  have first: "render_step svc w (current_step s) s =
      Inr (Rerun, s1, st_header (label (WORKFLOW_STEPS ! i)) # ev)"
    unfolding assms(4) render_step_def found using stage run1 by simp
  have idle: "\<not> approve_clicked (stage_controls w ?next)"
    "\<not> submit_clicked (stage_controls w ?next)"
    using moved by (simp_all add: stage_controls_def assms(6))
  from render_sdlc_step_idle [OF idle p1] obtain s2 ev' where
    run2: "render_sdlc_step svc' (stage_controls w ?next) ?next s1 = Inr (Proceed, s2, ev')"
    and a2: "approved s2 = approved s1"
    and c2: "current_step s2 = current_step s1"
    by blast
  have second: "render_step svc' w (current_step s1) s1 =
      Inr (Proceed, s2, st_header (label (WORKFLOW_STEPS ! (i + 1))) # ev')"
    unfolding c1 render_step_def found_next using next_stage run2 by simp
  from first a1 c1 moved second a2 c2 show ?thesis
    by auto
qed

theorem approve_twice_witness:
  "\<exists>s1 ev1 s2 ev2.
      render_step (\<lambda>k req. Inr ''draft'')
        \<lparr>clicked = Some ''approve_user_stories'', texts = Map.empty\<rparr> ''user_stories''
        (initial_session_state\<lparr>current_step := ''user_stories'',
                               project_prompt := Some ''shop''\<rparr>) = Inr (Rerun, s1, ev1)
      \<and> approved s1 = [''user_stories'' \<mapsto> True]
      \<and> current_step s1 = ''design_docs''
      \<and> render_step (\<lambda>k req. Inr ''draft'')
          \<lparr>clicked = Some ''approve_user_stories'', texts = Map.empty\<rparr> ''design_docs'' s1 =
          Inr (Proceed, s2, ev2)
      \<and> approved s2 = [''user_stories'' \<mapsto> True]
      \<and> current_step s2 = ''design_docs''"
proof -
  let ?s = "initial_session_state\<lparr>current_step := ''user_stories'',
                                   project_prompt := Some ''shop''\<rparr>"
  let ?w = "\<lparr>clicked = Some ''approve_user_stories'', texts = Map.empty\<rparr>"
  have h1: "(0::nat) < 1" and h2: "(1::nat) + 1 < length WORKFLOW_STEPS"
    by (simp_all add: length_WORKFLOW_STEPS)
  have h3: "''user_stories'' = id' (WORKFLOW_STEPS ! 1)"
    by (simp add: WORKFLOW_STEPS_def)
  have h4: "current_step ?s = ''user_stories''" and h5: "project_prompt ?s = Some ''shop''"
    by simp_all
  have h6: "clicked ?w = Some (''approve_'' @ ''user_stories'')"
    by simp
  have n2: "id' (WORKFLOW_STEPS ! (1 + 1)) = ''design_docs''"
    by (simp add: WORKFLOW_STEPS_def)
  have a0: "approved ?s = Map.empty"
    by (simp add: initial_session_state_def)
  from approve_twice [OF h1 h2 h3 h4 h5 h6, of "\<lambda>k req. Inr ''draft''" "\<lambda>k req. Inr ''draft''"]
  obtain s1 ev1 s2 ev2 where
    "render_step (\<lambda>k req. Inr ''draft'') ?w (current_step ?s) ?s = Inr (Rerun, s1, ev1)"
    "approved s1 = (approved ?s)(''user_stories'' \<mapsto> True)"
    "current_step s1 = id' (WORKFLOW_STEPS ! (1 + 1))"
    "render_step (\<lambda>k req. Inr ''draft'') ?w (current_step s1) s1 = Inr (Proceed, s2, ev2)"
    "approved s2 = approved s1"
    "current_step s2 = current_step s1"
    by blast
  then have
    "render_step (\<lambda>k req. Inr ''draft'') ?w ''user_stories'' ?s = Inr (Rerun, s1, ev1)
     \<and> approved s1 = [''user_stories'' \<mapsto> True]
     \<and> current_step s1 = ''design_docs''
     \<and> render_step (\<lambda>k req. Inr ''draft'') ?w ''design_docs'' s1 = Inr (Proceed, s2, ev2)
     \<and> approved s2 = [''user_stories'' \<mapsto> True]
     \<and> current_step s2 = ''design_docs''"
    unfolding h4 n2 a0 by simp
  then show ?thesis
    by blast
qed

subsection \<open>What happens to feedback\<close>

lemma generate_content_feedback:
  "generate_content svc k s = Inr (s', ev) \<Longrightarrow> feedback s' = feedback s"
  by (auto simp: generate_content_def record_generated_def
      split: if_splits sum.splits prod.splits)

lemma move_to_next_step_feedback:
  "move_to_next_step s = Inr (fl, s') \<Longrightarrow> feedback s' = feedback s"
  by (auto simp: move_to_next_step_def split: option.splits if_splits)

lemma approve_feedback: "approve k s = Inr (fl, s') \<Longrightarrow> feedback s' = feedback s"
  unfolding approve_def by (drule move_to_next_step_feedback) simp

lemma submit_feedback_keeps:
  "submit_feedback k fb s = (fl, s', ev) \<Longrightarrow> truthy (feedback s j) \<Longrightarrow>
   truthy (feedback s' j)"
  by (auto simp: submit_feedback_def truthy_def split: if_splits)

lemma render_sdlc_step_keeps:
  assumes "render_sdlc_step svc inp k s = Inr (fl, s', ev)"
    and "truthy (feedback s j)"
  shows "truthy (feedback s' j)"
proof -
  from assms(1) obtain s1 shown1 where
    gen: "generate_content svc k s = Inr (s1, shown1)"
    by (auto simp: render_sdlc_step_def split: sum.splits)
  then have f1: "feedback s1 = feedback s"
    by (rule generate_content_feedback)
  from assms(1) gen obtain fl2 s2 where
    appr: "(if approve_clicked inp then approve k s1 else Inr (Proceed, s1)) = Inr (fl2, s2)"
    and rest: "fl2 = Rerun \<and> s' = s2 \<or>
      fl2 = Proceed \<and> submit_clicked inp \<and>
        (\<exists>shown3. submit_feedback k (feedback_text inp) s2 = (fl, s', shown3)) \<or>
      fl2 = Proceed \<and> \<not> submit_clicked inp \<and> s' = s2"
    by (auto simp: render_sdlc_step_def Let_def
        split: sum.splits option.splits prod.splits flow.splits if_splits)
  from appr have f2: "feedback s2 = feedback s1"
    by (auto dest: approve_feedback split: if_splits)
  from rest show ?thesis
  proof (elim disjE conjE exE)
    assume "s' = s2"
    with f1 f2 assms(2) show ?thesis by simp
  next
    fix shown3
    assume "submit_feedback k (feedback_text inp) s2 = (fl, s', shown3)"
    moreover from f1 f2 assms(2) have "truthy (feedback s2 j)" by simp
    ultimately show ?thesis by (rule submit_feedback_keeps)
  next
    assume "s' = s2"
    with f1 f2 assms(2) show ?thesis by simp
  qed
qed

text \<open>
  Claim C10 ends by saying that no operation of the program ever clears a feedback entry.
  The handler that starts a new workflow does: a stage with feedback \<^verbatim>\<open>shorter\<close> has
  none afterwards.
\<close>

theorem restart_clears_feedback_counterexample:
  "feedback
     (initial_session_state\<lparr>feedback := [''user_stories'' \<mapsto> ''shorter''],
                            show_completion_prompt := True\<rparr>) ''user_stories'' =
     Some ''shorter''
   \<and> feedback
       (start_new_sdlc
          (initial_session_state\<lparr>feedback := [''user_stories'' \<mapsto> ''shorter''],
                                 show_completion_prompt := True\<rparr>)) ''user_stories'' = None"
  by (simp add: start_new_sdlc_def)

text \<open>
  Claim C10 as amended. For every session state, stage id and content string, storing
  generated text sets the generated content of the stage to that text, overwriting any
  previous value, and leaves the feedback and every other field unchanged; consequently,
  when the feedback of the stage is non-empty before regeneration, the stage still needs
  generation afterwards, since no operation of the program other than the restart ever
  clears a feedback entry: generation, approval, feedback submission, the rendering of a
  stage as a whole, intake and export keep a non-empty feedback entry non-empty, and the
  restart removes the feedback entry of every stage.
\<close>

theorem record_generated_keeps_feedback:
  "generated_content (record_generated step_id c s) = (generated_content s)(step_id \<mapsto> c)
   \<and> feedback (record_generated step_id c s) = feedback s
   \<and> approved (record_generated step_id c s) = approved s
   \<and> current_step (record_generated step_id c s) = current_step s
   \<and> show_completion_prompt (record_generated step_id c s) = show_completion_prompt s
   \<and> api_key (record_generated step_id c s) = api_key s
   \<and> project_prompt (record_generated step_id c s) = project_prompt s
   \<and> (truthy (feedback s step_id) \<longrightarrow> needs_generation step_id (record_generated step_id c s))
   \<and> (\<forall>s' ev. generate_content svc k s = Inr (s', ev) \<longrightarrow> feedback s' = feedback s)
   \<and> (\<forall>fl s'. approve k s = Inr (fl, s') \<longrightarrow> feedback s' = feedback s)
   \<and> (\<forall>fl s' ev. submit_feedback k fb s = (fl, s', ev) \<longrightarrow>
         truthy (feedback s step_id) \<longrightarrow> truthy (feedback s' step_id))
   \<and> (\<forall>fl s' ev. render_sdlc_step svc inp k s = Inr (fl, s', ev) \<longrightarrow>
         truthy (feedback s step_id) \<longrightarrow> truthy (feedback s' step_id))
   \<and> feedback (fst (snd (render_api_input key_input description_input start_clicked s))) =
       feedback s
   \<and> feedback (snd (download_entire_workflow dumps now s)) = feedback s
   \<and> feedback (start_new_sdlc s) = Map.empty"
proof -
  have stored:
    "generated_content (record_generated step_id c s) = (generated_content s)(step_id \<mapsto> c)"
    "feedback (record_generated step_id c s) = feedback s"
    "approved (record_generated step_id c s) = approved s"
    "current_step (record_generated step_id c s) = current_step s"
    "show_completion_prompt (record_generated step_id c s) = show_completion_prompt s"
    "api_key (record_generated step_id c s) = api_key s"
    "project_prompt (record_generated step_id c s) = project_prompt s"
    by (simp_all add: record_generated_def)
  have again: "truthy (feedback s step_id) \<longrightarrow>
      needs_generation step_id (record_generated step_id c s)"
    by (simp add: needs_generation_def stored)
  have gen: "\<forall>s' ev. generate_content svc k s = Inr (s', ev) \<longrightarrow> feedback s' = feedback s"
    using generate_content_feedback by blast
  have appr: "\<forall>fl s'. approve k s = Inr (fl, s') \<longrightarrow> feedback s' = feedback s"
    using approve_feedback by blast
  have subm: "\<forall>fl s' ev. submit_feedback k fb s = (fl, s', ev) \<longrightarrow>
      truthy (feedback s step_id) \<longrightarrow> truthy (feedback s' step_id)"
    using submit_feedback_keeps by blast
  have rend: "\<forall>fl s' ev. render_sdlc_step svc inp k s = Inr (fl, s', ev) \<longrightarrow>
      truthy (feedback s step_id) \<longrightarrow> truthy (feedback s' step_id)"
    using render_sdlc_step_keeps by blast
  have intake:
    "feedback (fst (snd (render_api_input key_input description_input start_clicked s))) =
       feedback s"
    by (simp add: render_api_input_def Let_def)
  have export: "feedback (snd (download_entire_workflow dumps now s)) = feedback s"
    by (simp add: download_entire_workflow_def)
  have restart: "feedback (start_new_sdlc s) = Map.empty"
    by (simp add: start_new_sdlc_def)
  from stored again gen appr subm rend intake export restart show ?thesis
    by blast
qed

theorem record_generated_keeps_feedback_witness:
  "generated_content
     (record_generated ''user_stories'' ''second draft''
        (initial_session_state\<lparr>generated_content := [''user_stories'' \<mapsto> ''first draft''],
                               feedback := [''user_stories'' \<mapsto> ''shorter'']\<rparr>))
     ''user_stories'' = Some ''second draft''
   \<and> feedback
       (record_generated ''user_stories'' ''second draft''
          (initial_session_state\<lparr>generated_content := [''user_stories'' \<mapsto> ''first draft''],
                                 feedback := [''user_stories'' \<mapsto> ''shorter'']\<rparr>))
       ''user_stories'' = Some ''shorter''
   \<and> needs_generation ''user_stories''
       (record_generated ''user_stories'' ''second draft''
          (initial_session_state\<lparr>generated_content := [''user_stories'' \<mapsto> ''first draft''],
                                 feedback := [''user_stories'' \<mapsto> ''shorter'']\<rparr>))"
proof -
  let ?s = "initial_session_state\<lparr>generated_content := [''user_stories'' \<mapsto> ''first draft''],
                                   feedback := [''user_stories'' \<mapsto> ''shorter'']\<rparr>"
  have fb: "truthy (feedback ?s ''user_stories'')"
    by (simp add: truthy_def)
  have f: "feedback ?s ''user_stories'' = Some ''shorter''"
    by simp
  from record_generated_keeps_feedback [of "''user_stories''" "''second draft''" ?s] fb
  have "generated_content (record_generated ''user_stories'' ''second draft'' ?s) =
      (generated_content ?s)(''user_stories'' \<mapsto> ''second draft'')"
    and "feedback (record_generated ''user_stories'' ''second draft'' ?s) = feedback ?s"
    and "needs_generation ''user_stories'' (record_generated ''user_stories'' ''second draft'' ?s)"
    by blast+
  with f show ?thesis
    by simp
qed

end
